theory Spec2Isabelle
  imports Complex_Main "HOL-Library.Multiset"
begin

section \<open>Data model\<close>

text \<open>
  Embedding of \<^verbatim>\<open>py_scripts/train_android.py\<close>: the collator \<^verbatim>\<open>collate_feat\<close>,
  the evaluator \<^verbatim>\<open>test_eval\<close> and the checkpointing part of the epoch loop of
  \<^verbatim>\<open>main\<close>.

  Tensor entries are floating-point numbers in the program; they are idealised as
  \<^typ>\<open>real\<close> here. The collator only moves entries, so no rounding occurs there. The
  evaluator's differences, losses and means, and the epoch score that is compared
  with \<^verbatim>\<open>min_acc\<close>, are computed over the reals: the rounding of single-precision
  arithmetic is not modelled, and a score stands for the value the program computed.

  Exceptions are values of the type \<open>py_error\<close>; a function that can raise returns
  \<open>py_error + 'a\<close> with \<open>Inl\<close> for the exception.
\<close>

datatype py_error =
    StopIteration   \<comment> \<open>\<^verbatim>\<open>next\<close> on an exhausted iterator\<close>
  | IndexError      \<comment> \<open>indexing an empty sequence\<close>
  | ShapeError      \<comment> \<open>torch / numpy refusing operands whose shapes do not fit\<close>
  | ValueError      \<comment> \<open>building a tensor from a ragged nested sequence\<close>

text \<open>
  A 2-D tensor of shape \<open>[L, D]\<close>: its rows and the trailing dimension \<open>D\<close>, which a
  tensor keeps even when it has no row. \<^verbatim>\<open>t.shape[0]\<close> and \<^verbatim>\<open>len(t)\<close> are the
  number of rows.
\<close>

record tensor2 =
  width2 :: nat
  rows2 :: "real list list"

definition len2 :: "tensor2 \<Rightarrow> nat" where
  "len2 t = length (rows2 t)"

definition wf_tensor2 :: "tensor2 \<Rightarrow> bool" where
  "wf_tensor2 t = list_all (\<lambda>r. length r = width2 t) (rows2 t)"

text \<open>
  A 3-D tensor with its size \<open>(L, N, D)\<close>; \<open>data3 t ! l ! n\<close> is the feature row of
  sequence \<open>n\<close> at position \<open>l\<close>.
\<close>

record tensor3 =
  size3 :: "nat \<times> nat \<times> nat"
  data3 :: "real list list list"

text \<open>
  The dictionaries of the program have the keys \<^verbatim>\<open>features\<close>,
  \<^verbatim>\<open>true_correction\<close> and \<^verbatim>\<open>guess\<close>, for one sample and for a collated batch.
\<close>

record ('f, 'c) sample_dict =
  features :: 'f
  true_correction :: 'c
  guess :: 'c

type_synonym sample = "(tensor2, real list) sample_dict"
type_synonym batch_dict = "(tensor3, real list list) sample_dict"

section \<open>The collator\<close>

text \<open>
  \<^verbatim>\<open>sorted(xs, key=k, reverse=True)\<close>. CPython keeps the sort stable under
  \<^verbatim>\<open>reverse=True\<close> by reversing the list, sorting it with its stable ascending sort,
  and reversing the result.
\<close>

definition sorted_reverse :: "('a \<Rightarrow> nat) \<Rightarrow> 'a list \<Rightarrow> 'a list" where
  "sorted_reverse k xs = rev (sort_key k (rev xs))"

text \<open>
  \<^verbatim>\<open>torch.nn.utils.rnn.pad_sequence(sequences)\<close> with \<^verbatim>\<open>batch_first=False\<close> and
  padding value 0: the result has size \<open>(max_len, len(sequences))\<close> followed by the
  trailing dimension of the first sequence; sequence \<open>i\<close> is copied to
  \<open>out[:length, i]\<close> and the other positions keep the padding value. An empty list
  of sequences is refused. The function is documented for sequences with one trailing
  dimension; sequences that differ in it are a \<open>ShapeError\<close> here.
\<close>

definition pad_sequence :: "tensor2 list \<Rightarrow> py_error + tensor3" where
  "pad_sequence sequences =
     (case sequences of
        [] \<Rightarrow> Inl IndexError
      | s0 # _ \<Rightarrow>
          (let D = width2 s0;
               max_len = fold max (map len2 sequences) 0
           in if list_all (\<lambda>s. width2 s = D) sequences
              then Inr \<lparr> size3 = (max_len, length sequences, D),
                         data3 = map (\<lambda>l. map (\<lambda>s. if l < len2 s then rows2 s ! l
                                                        else replicate D 0) sequences)
                                     [0..<max_len] \<rparr>
              else Inl ShapeError))"

text \<open>
  \<^verbatim>\<open>pad_mask[i, k:] = 1\<close> on one row of the mask: the entries from position \<open>k\<close> on
  become \<open>True\<close>, the others stay.
\<close>

definition set_from :: "nat \<Rightarrow> bool list \<Rightarrow> bool list" where
  "set_from k row = take k row @ replicate (length row - k) True"

text \<open>
  The loop \<^verbatim>\<open>for i, x in enumerate(features): pad_mask[i, len(x):] = 1\<close>. The row
  index \<open>i\<close> ranges over the positions of \<^verbatim>\<open>features\<close>, and the mask has one row for
  each of them, so the index is always in range.
\<close>

fun mask_loop :: "(nat \<times> tensor2) list \<Rightarrow> bool list list \<Rightarrow> bool list list" where
  "mask_loop [] pad_mask = pad_mask"
| "mask_loop ((i, x) # rest) pad_mask =
     mask_loop rest (pad_mask[i := set_from (len2 x) (pad_mask ! i)])"

text \<open>
  \<^verbatim>\<open>torch.Tensor([...])\<close> on a list of numeric sequences: the rows are stacked; rows
  of different lengths are refused.
\<close>

definition torch_Tensor :: "real list list \<Rightarrow> py_error + real list list" where
  "torch_Tensor xs =
     (case xs of
        [] \<Rightarrow> Inr []
      | x0 # _ \<Rightarrow> if list_all (\<lambda>r. length r = length x0) xs then Inr xs else Inl ValueError)"

definition collate_feat :: "sample list \<Rightarrow> py_error + (batch_dict \<times> bool list list)" where
  "collate_feat batch =
     (let sorted_batch = sorted_reverse (\<lambda>x. len2 (features x)) batch;
          feats = map features sorted_batch
      in case pad_sequence feats of
           Inl e \<Rightarrow> Inl e
         | Inr features_padded \<Rightarrow>
             (case size3 features_padded of
                (L, N, D) \<Rightarrow>
                  (let pad_mask = mask_loop (enumerate 0 feats) (replicate N (replicate L False))
                   in case torch_Tensor (map true_correction sorted_batch) of
                        Inl e \<Rightarrow> Inl e
                      | Inr correction \<Rightarrow>
                          (case torch_Tensor (map guess sorted_batch) of
                             Inl e \<Rightarrow> Inl e
                           | Inr g \<Rightarrow>
                               Inr (\<lparr> features = features_padded,
                                       true_correction = correction,
                                       guess = g \<rparr>, pad_mask)))))"

section \<open>The evaluator\<close>

text \<open>
  A collated batch as the validation loader yields it, the network's forward pass
  \<^verbatim>\<open>net(x, pad_mask=pad_mask)\<close> and the loss function. The network and the loss are
  collaborators outside this file and are parameters here. Moving a tensor to the
  accelerator and converting it to single precision do not change it in this model.
\<close>

type_synonym collated = "batch_dict \<times> bool list list"
type_synonym network = "tensor3 \<Rightarrow> bool list list \<Rightarrow> real list list"
type_synonym loss_fn = "real list list \<Rightarrow> real list list \<Rightarrow> real"

text \<open>
  The validation loader is an iterable that yields the same finite sequence of
  batches every time it is iterated (it is built with \<^verbatim>\<open>shuffle=False\<close>);
  \<^verbatim>\<open>iter(val_loader)\<close> is the list of batches still to come, and \<^verbatim>\<open>next\<close> takes the
  first of them or raises \<^verbatim>\<open>StopIteration\<close>.
\<close>

definition py_next :: "'b list \<Rightarrow> py_error + ('b \<times> 'b list)" where
  "py_next generator =
     (case generator of [] \<Rightarrow> Inl StopIteration | x # rest \<Rightarrow> Inr (x, rest))"

text \<open>
  The \<^verbatim>\<open>try\<close> block of the loop: on \<^verbatim>\<open>StopIteration\<close> the loader is iterated anew and
  \<^verbatim>\<open>next\<close> is called once more, outside any handler.
\<close>

definition fetch_batch :: "'b list \<Rightarrow> 'b list \<Rightarrow> py_error + ('b \<times> 'b list)" where
  "fetch_batch val_loader generator =
     (case py_next generator of
        Inr r \<Rightarrow> Inr r
      | Inl e \<Rightarrow> if e = StopIteration then py_next val_loader else Inl e)"

text \<open>
  \<^verbatim>\<open>y - pred_correction\<close> on two matrices of one shape. Operands of different shapes
  are a \<open>ShapeError\<close> here; the statements below are about a network whose output has
  the shape of the target.
\<close>

definition tensor_sub :: "real list list \<Rightarrow> real list list \<Rightarrow> py_error + real list list" where
  "tensor_sub y p =
     (if map length y = map length p
      then Inr (map2 (\<lambda>r s. map2 (\<lambda>a b. a - b) r s) y p)
      else Inl ShapeError)"

text \<open>
  The body of \<^verbatim>\<open>for i in range(100)\<close>, with the number of iterations still to run
  as the first argument.
\<close>

fun test_eval_loop ::
  "nat \<Rightarrow> collated list \<Rightarrow> collated list \<Rightarrow> network \<Rightarrow> loss_fn \<Rightarrow>
   real list list list \<Rightarrow> real \<Rightarrow> py_error + (real list list list \<times> real)" where
  "test_eval_loop 0 val_loader generator net loss_func stats_val loss_val =
     Inr (stats_val, loss_val)"
| "test_eval_loop (Suc n) val_loader generator net loss_func stats_val loss_val =
     (case fetch_batch val_loader generator of
        Inl e \<Rightarrow> Inl e
      | Inr (sample_batched, generator') \<Rightarrow>
          (case sample_batched of
             (sb, pad_mask) \<Rightarrow>
               (let x = features sb;
                    y = true_correction sb;
                    pred_correction = net x pad_mask;
                    loss = loss_func pred_correction y
                in case tensor_sub y pred_correction of
                     Inl e \<Rightarrow> Inl e
                   | Inr d \<Rightarrow>
                       test_eval_loop n val_loader generator' net loss_func
                         (stats_val @ [d]) (loss_val + loss))))"

text \<open>
  \<^verbatim>\<open>np.mean(np.abs(np.array(stats_val)), axis=0)\<close>: the matrices are stacked, which
  needs them to have one shape, and the mean of the absolute values is taken over the
  stacking axis. (On an empty list numpy returns \<^verbatim>\<open>nan\<close> with a warning; the evaluator
  never passes one, and the case is a \<open>ValueError\<close> here.)
\<close>

definition np_mean_abs_axis0 :: "real list list list \<Rightarrow> py_error + real list list" where
  "np_mean_abs_axis0 stats =
     (case stats of
        [] \<Rightarrow> Inl ValueError
      | s0 # _ \<Rightarrow>
          if list_all (\<lambda>s. map length s = map length s0) stats
          then Inr (map (\<lambda>n. map (\<lambda>c. sum_list (map (\<lambda>s. \<bar>s ! n ! c\<bar>) stats)
                                       / real (length stats))
                               [0..<length (s0 ! n)])
                        [0..<length s0])
          else Inl ValueError)"

definition test_eval ::
  "collated list \<Rightarrow> network \<Rightarrow> loss_fn \<Rightarrow> py_error + (real list list \<times> real)" where
  "test_eval val_loader net loss_func =
     (case test_eval_loop 100 val_loader val_loader net loss_func [] 0 of
        Inl e \<Rightarrow> Inl e
      | Inr (stats_val, loss_val) \<Rightarrow>
          (case np_mean_abs_axis0 stats_val of
             Inl e \<Rightarrow> Inl e
           | Inr mean_acc \<Rightarrow> Inr (mean_acc, loss_val / real (length stats_val))))"

section \<open>The epoch loop and its checkpoint\<close>

text \<open>
  The state of the epoch loop of \<^verbatim>\<open>main\<close>: the network's parameters, the best score
  \<^verbatim>\<open>min_acc\<close>, and the calls of \<^verbatim>\<open>torch.save\<close> made so far, each with the epoch in
  which it was made and the parameters it wrote. Every call writes the same file
  name, so the checkpoint on disk is the last entry.
\<close>

record 'net trainer_state =
  t_net :: 'net
  min_acc :: real
  saved :: "(nat \<times> 'net) list"

definition initial_state :: "'net \<Rightarrow> 'net trainer_state" where
  "initial_state net0 = \<lparr> t_net = net0, min_acc = 1000000, saved = [] \<rparr>"

text \<open>\<^verbatim>\<open>np.sum(mean_acc)\<close>: the sum of all entries.\<close>

definition np_sum :: "real list list \<Rightarrow> real" where
  "np_sum a = sum_list (map sum_list a)"

text \<open>
  One epoch. The training pass over the shuffled loader is the collaborator
  \<open>train_phase\<close>, which may depend on the epoch; \<open>forward\<close> gives the forward pass of
  a network with given parameters. The logging calls are not modelled, except that
  \<^verbatim>\<open>len(mean_acc[0])\<close> needs \<^verbatim>\<open>mean_acc\<close> to have a first row.
\<close>

definition epoch_body ::
  "(nat \<Rightarrow> 'net \<Rightarrow> 'net) \<Rightarrow> ('net \<Rightarrow> network) \<Rightarrow> loss_fn \<Rightarrow> collated list \<Rightarrow>
   nat \<Rightarrow> 'net trainer_state \<Rightarrow> py_error + 'net trainer_state" where
  "epoch_body train_phase forward loss_func val_loader epoch st =
     (let net' = train_phase epoch (t_net st)
      in case test_eval val_loader (forward net') loss_func of
           Inl e \<Rightarrow> Inl e
         | Inr (mean_acc, test_loss) \<Rightarrow>
             (case mean_acc of
                [] \<Rightarrow> Inl IndexError
              | _ # _ \<Rightarrow>
                  if np_sum mean_acc < min_acc st
                  then Inr (st \<lparr> t_net := net', min_acc := np_sum mean_acc,
                                 saved := saved st @ [(epoch, net')] \<rparr>)
                  else Inr (st \<lparr> t_net := net' \<rparr>)))"

fun main_loop ::
  "(nat \<Rightarrow> 'net \<Rightarrow> 'net) \<Rightarrow> ('net \<Rightarrow> network) \<Rightarrow> loss_fn \<Rightarrow> collated list \<Rightarrow>
   nat list \<Rightarrow> 'net trainer_state \<Rightarrow> py_error + 'net trainer_state" where
  "main_loop train_phase forward loss_func val_loader [] st = Inr st"
| "main_loop train_phase forward loss_func val_loader (epoch # epochs) st =
     (case epoch_body train_phase forward loss_func val_loader epoch st of
        Inl e \<Rightarrow> Inl e
      | Inr st' \<Rightarrow> main_loop train_phase forward loss_func val_loader epochs st')"

text \<open>\<^verbatim>\<open>for epoch in range(config.N_train_epochs)\<close>, from \<^verbatim>\<open>min_acc = 1000000\<close>.\<close>

definition train ::
  "(nat \<Rightarrow> 'net \<Rightarrow> 'net) \<Rightarrow> ('net \<Rightarrow> network) \<Rightarrow> loss_fn \<Rightarrow> collated list \<Rightarrow>
   nat \<Rightarrow> 'net \<Rightarrow> py_error + 'net trainer_state" where
  "train train_phase forward loss_func val_loader N_train_epochs net0 =
     main_loop train_phase forward loss_func val_loader [0..<N_train_epochs]
       (initial_state net0)"

section \<open>Notions used in the statements\<close>

text \<open>The variable \<^verbatim>\<open>sorted_batch\<close> of the collator.\<close>

abbreviation sorted_samples :: "sample list \<Rightarrow> sample list" where
  "sorted_samples batch \<equiv> sorted_reverse (\<lambda>x. len2 (features x)) batch"

text \<open>The longest feature sequence of a batch.\<close>

definition L_max :: "sample list \<Rightarrow> nat" where
  "L_max batch = Max (set (map (\<lambda>x. len2 (features x)) batch))"

text \<open>
  A batch as the dataset provides it: at least one sample, every feature tensor with
  \<open>D\<close> columns, every correction of length \<open>C\<close> and every guess of length \<open>G\<close>.
\<close>

definition uniform_batch :: "nat \<Rightarrow> nat \<Rightarrow> nat \<Rightarrow> sample list \<Rightarrow> bool" where
  "uniform_batch D C G batch \<longleftrightarrow>
     batch \<noteq> [] \<and>
     list_all (\<lambda>s. width2 (features s) = D \<and> wf_tensor2 (features s) \<and>
                    length (true_correction s) = C \<and> length (guess s) = G) batch"

text \<open>Three samples of lengths 2, 1 and 3 with \<open>D = 2\<close> and \<open>C = 2\<close>.\<close>

definition example_batch :: "sample list" where
  "example_batch =
     [\<lparr>features = \<lparr>width2 = 2, rows2 = [[1, 1], [2, 2]]\<rparr>,
        true_correction = [10, 10], guess = [20, 20]\<rparr>,
      \<lparr>features = \<lparr>width2 = 2, rows2 = [[3, 3]]\<rparr>,
        true_correction = [11, 11], guess = [21, 21]\<rparr>,
      \<lparr>features = \<lparr>width2 = 2, rows2 = [[4, 4], [5, 5], [6, 6]]\<rparr>,
        true_correction = [12, 12], guess = [22, 22]\<rparr>]"

text \<open>
  What the evaluator needs from its collaborators: the loader yields at least one
  batch, the targets of all batches have one shape (the list of the row lengths), and
  the network's prediction has the shape of the target.
\<close>

definition eval_ready :: "network \<Rightarrow> collated list \<Rightarrow> nat list \<Rightarrow> bool" where
  "eval_ready net val_loader shape \<longleftrightarrow>
     val_loader \<noteq> [] \<and>
     list_all (\<lambda>(b, m). map length (true_correction b) = shape \<and>
                         map length (net (features b) m) = shape) val_loader"

text \<open>
  The batch of iteration \<open>k\<close> when the loader is restarted each time it is exhausted,
  with its target, the network's prediction and the loss.
\<close>

definition batch_at :: "collated list \<Rightarrow> nat \<Rightarrow> collated" where
  "batch_at val_loader k = val_loader ! (k mod length val_loader)"

definition target_at :: "collated list \<Rightarrow> nat \<Rightarrow> real list list" where
  "target_at val_loader k = true_correction (fst (batch_at val_loader k))"

definition pred_at :: "network \<Rightarrow> collated list \<Rightarrow> nat \<Rightarrow> real list list" where
  "pred_at net val_loader k =
     net (features (fst (batch_at val_loader k))) (snd (batch_at val_loader k))"

definition loss_at :: "network \<Rightarrow> loss_fn \<Rightarrow> collated list \<Rightarrow> nat \<Rightarrow> real" where
  "loss_at net loss_func val_loader k =
     loss_func (pred_at net val_loader k) (target_at val_loader k)"

definition diff_at :: "network \<Rightarrow> collated list \<Rightarrow> nat \<Rightarrow> real list list" where
  "diff_at net val_loader k =
     map2 (\<lambda>r s. map2 (\<lambda>a b. a - b) r s) (target_at val_loader k) (pred_at net val_loader k)"

text \<open>
  The parameters after \<open>k\<close> training passes, the score \<^verbatim>\<open>np.sum(mean_acc)\<close> of epoch
  \<open>k\<close> (epochs count from 0, as \<^verbatim>\<open>range\<close> does), and the value of \<^verbatim>\<open>min_acc\<close> when
  epoch \<open>k\<close> begins: the least of 1000000 and the scores of the earlier epochs.
\<close>

primrec net_at :: "(nat \<Rightarrow> 'net \<Rightarrow> 'net) \<Rightarrow> 'net \<Rightarrow> nat \<Rightarrow> 'net" where
  "net_at train_phase net0 0 = net0"
| "net_at train_phase net0 (Suc k) = train_phase k (net_at train_phase net0 k)"

definition epoch_score ::
  "(nat \<Rightarrow> 'net \<Rightarrow> 'net) \<Rightarrow> ('net \<Rightarrow> network) \<Rightarrow> loss_fn \<Rightarrow> collated list \<Rightarrow>
   'net \<Rightarrow> nat \<Rightarrow> real" where
  "epoch_score train_phase forward loss_func val_loader net0 k =
     (case test_eval val_loader (forward (net_at train_phase net0 (Suc k))) loss_func of
        Inr (mean_acc, test_loss) \<Rightarrow> np_sum mean_acc
      | Inl e \<Rightarrow> 0)"

definition best_before ::
  "(nat \<Rightarrow> 'net \<Rightarrow> 'net) \<Rightarrow> ('net \<Rightarrow> network) \<Rightarrow> loss_fn \<Rightarrow> collated list \<Rightarrow>
   'net \<Rightarrow> nat \<Rightarrow> real" where
  "best_before train_phase forward loss_func val_loader net0 k =
     Min (insert 1000000
            (epoch_score train_phase forward loss_func val_loader net0 ` {..<k}))"

text \<open>
  A small run: a validation loader of two batches of one sample each, a network
  whose parameter is the single number it predicts, the squared error as the loss,
  and a training pass that sets the parameter to 5.5, 6.5 and 5.4 in the epochs 0, 1
  and 2, which gives the scores 5.0, 6.0 and 4.9.
\<close>

definition example_val_loader :: "collated list" where
  "example_val_loader =
     [(\<lparr>features = \<lparr>size3 = (1, 1, 1), data3 = [[[1]]]\<rparr>,
        true_correction = [[0]], guess = [[0]]\<rparr>, [[False]]),
      (\<lparr>features = \<lparr>size3 = (2, 1, 1), data3 = [[[1]], [[2]]]\<rparr>,
        true_correction = [[1]], guess = [[0]]\<rparr>, [[False, False]])]"

definition example_forward :: "real \<Rightarrow> network" where
  "example_forward p x pad_mask = [[p]]"

definition example_loss :: loss_fn where
  "example_loss pred y = (pred ! 0 ! 0 - y ! 0 ! 0)\<^sup>2"

definition example_train_phase :: "nat \<Rightarrow> real \<Rightarrow> real" where
  "example_train_phase epoch p =
     (if epoch = 0 then 11 / 2 else if epoch = 1 then 13 / 2 else 27 / 5)"

section \<open>Properties of the sort\<close>

lemma mset_sorted_reverse: "mset (sorted_reverse k xs) = mset xs"
  by (simp add: sorted_reverse_def)

lemma length_sorted_reverse: "length (sorted_reverse k xs) = length xs"
  by (simp add: sorted_reverse_def)

lemma set_sorted_reverse: "set (sorted_reverse k xs) = set xs"
  by (simp add: sorted_reverse_def)

lemma sorted_reverse_Nil_iff: "sorted_reverse k xs = [] \<longleftrightarrow> xs = []"
  using length_sorted_reverse [of k xs] by (metis length_0_conv)

lemma sorted_reverse_descending:
  "sorted_wrt (\<lambda>a b. k a \<ge> k b) (sorted_reverse k xs)"
proof -
  have "sorted (map k (sort_key k (rev xs)))" by simp
  then have "sorted_wrt (\<lambda>a b. k a \<le> k b) (sort_key k (rev xs))"
    by (simp add: sorted_wrt_map)
  then show ?thesis
    by (simp add: sorted_reverse_def sorted_wrt_rev)
qed

lemma sorted_reverse_stable:
  "filter (\<lambda>x. k x = c) (sorted_reverse k xs) = filter (\<lambda>x. k x = c) xs"
proof -
  have "filter (\<lambda>x. k x = c) (sort_key k (rev xs)) = filter (\<lambda>x. k x = c) (rev xs)"
    by (rule sort_key_stable)
  then show ?thesis
    by (simp add: sorted_reverse_def rev_filter [symmetric])
qed

lemma sorted_samples_nth_mem:
  "i < length batch \<Longrightarrow> sorted_samples batch ! i \<in> set batch"
  by (metis length_sorted_reverse nth_mem set_sorted_reverse)

section \<open>Properties of the padding and of the mask loop\<close>

lemma fold_max_eq: "fold max xs (a::nat) = Max (insert a (set xs))"
  using Max.set_eq_fold [of a xs] by simp

lemma mask_loop_length: "length (mask_loop es pm) = length pm"
  by (induction es pm rule: mask_loop.induct) simp_all

lemma mask_loop_enumerate:
  "length pm = k + length xs \<Longrightarrow> i < length pm \<Longrightarrow>
   mask_loop (enumerate k xs) pm ! i =
     (if i < k then pm ! i else set_from (len2 (xs ! (i - k))) (pm ! i))"
proof (induction xs arbitrary: k pm)
  case Nil
  then show ?case by simp
next
  case (Cons x xs)
  have len: "length (pm[k := set_from (len2 x) (pm ! k)]) = Suc k + length xs"
    using Cons.prems by simp
  show ?case
    using Cons.IH [OF len] Cons.prems
    by (auto simp: nth_list_update nth_Cons' Suc_diff_le dest: less_antisym)
qed

lemma set_from_nth:
  "l < length row \<Longrightarrow> set_from k row ! l = (if l < k then row ! l else True)"
  by (auto simp: set_from_def nth_append)

lemma length_set_from: "k \<le> length row \<Longrightarrow> length (set_from k row) = length row"
  by (simp add: set_from_def)

lemma len2_le_L_max: "s \<in> set batch \<Longrightarrow> len2 (features s) \<le> L_max batch"
  unfolding L_max_def by (intro Max_ge) auto

lemma L_max_const:
  assumes "batch \<noteq> []" and "\<forall>s\<in>set batch. len2 (features s) = c"
  shows "L_max batch = c"
proof -
  have "set (map (\<lambda>x. len2 (features x)) batch) = {c}"
    using assms by (cases batch) auto
  then show ?thesis by (simp add: L_max_def)
qed

lemma fold_max_L_max:
  assumes "batch \<noteq> []"
  shows "fold max (map (\<lambda>x. len2 (features x)) (sorted_samples batch)) 0 = L_max batch"
proof -
  have "set (map (\<lambda>x. len2 (features x)) (sorted_samples batch)) =
        set (map (\<lambda>x. len2 (features x)) batch)"
    by (simp add: set_sorted_reverse)
  moreover have "set (map (\<lambda>x. len2 (features x)) batch) \<noteq> {}"
    using assms by simp
  ultimately show ?thesis
    unfolding fold_max_eq L_max_def
    by (metis List.finite_set Max_insert max_0L)
qed

lemma torch_Tensor_Inr: "torch_Tensor xs = Inr ys \<Longrightarrow> ys = xs"
  by (auto simp: torch_Tensor_def split: list.splits if_splits)

lemma torch_Tensor_uniform:
  "list_all (\<lambda>r. length r = C) xs \<Longrightarrow> torch_Tensor xs = Inr xs"
  by (cases xs) (auto simp: torch_Tensor_def list_all_iff)

lemma pad_sequence_Inr:
  assumes "pad_sequence sequences = Inr t"
  shows "sequences \<noteq> []"
    and "size3 t = (fold max (map len2 sequences) 0, length sequences, width2 (hd sequences))"
    and "data3 t = map (\<lambda>l. map (\<lambda>s. if l < len2 s then rows2 s ! l
                                        else replicate (width2 (hd sequences)) 0) sequences)
                       [0..<fold max (map len2 sequences) 0]"
  using assms
  by (auto simp: pad_sequence_def Let_def split: list.splits if_splits)

lemma pad_sequence_uniform:
  assumes "sequences \<noteq> []" and "list_all (\<lambda>s. width2 s = D) sequences"
  shows "\<exists>t. pad_sequence sequences = Inr t"
  using assms
  by (cases sequences) (auto simp: pad_sequence_def Let_def list_all_iff)

lemma collate_feat_Inr:
  assumes "collate_feat batch = Inr (b, m)"
  shows "batch \<noteq> []"
    and "size3 (features b) = (L_max batch, length batch, width2 (features (hd (sorted_samples batch))))"
    and "data3 (features b) =
           map (\<lambda>l. map (\<lambda>s. if l < len2 (features s) then rows2 (features s) ! l
                               else replicate (width2 (features (hd (sorted_samples batch)))) 0)
                         (sorted_samples batch))
               [0..<L_max batch]"
    and "m = mask_loop (enumerate 0 (map features (sorted_samples batch)))
                       (replicate (length batch) (replicate (L_max batch) False))"
    and "true_correction b = map true_correction (sorted_samples batch)"
    and "guess b = map guess (sorted_samples batch)"
proof -
  let ?sb = "sorted_samples batch"
  from assms obtain t where t: "pad_sequence (map features ?sb) = Inr t"
    by (auto simp: collate_feat_def Let_def split: sum.splits)
  from pad_sequence_Inr(1) [OF t] show ne: "batch \<noteq> []"
    by (simp add: sorted_reverse_Nil_iff)
  have sbne: "?sb \<noteq> []" using ne by (simp add: sorted_reverse_Nil_iff)
  have L: "fold max (map len2 (map features ?sb)) 0 = L_max batch"
    using fold_max_L_max [OF ne] by (simp add: comp_def)
  have sz: "size3 t = (L_max batch, length batch, width2 (features (hd ?sb)))"
    using pad_sequence_Inr(2) [OF t] L sbne
    by (simp add: length_sorted_reverse hd_map)
  have dt: "data3 t = map (\<lambda>l. map (\<lambda>s. if l < len2 (features s) then rows2 (features s) ! l
                               else replicate (width2 (features (hd ?sb))) 0) ?sb)
               [0..<L_max batch]"
    using pad_sequence_Inr(3) [OF t] L sbne
    by (simp add: hd_map comp_def)
  from assms t sz obtain c g where
    c: "torch_Tensor (map true_correction ?sb) = Inr c" and
    g: "torch_Tensor (map guess ?sb) = Inr g" and
    b: "b = \<lparr> features = t, true_correction = c, guess = g \<rparr>" and
    m: "m = mask_loop (enumerate 0 (map features ?sb))
                       (replicate (length batch) (replicate (L_max batch) False))"
    by (auto simp: collate_feat_def Let_def split: sum.splits)
  show "size3 (features b) = (L_max batch, length batch, width2 (features (hd ?sb)))"
    using b sz by simp
  show "data3 (features b) =
           map (\<lambda>l. map (\<lambda>s. if l < len2 (features s) then rows2 (features s) ! l
                               else replicate (width2 (features (hd ?sb))) 0) ?sb)
               [0..<L_max batch]"
    using b dt by simp
  show "m = mask_loop (enumerate 0 (map features ?sb))
                       (replicate (length batch) (replicate (L_max batch) False))"
    by (rule m)
  show "true_correction b = map true_correction ?sb"
    using b torch_Tensor_Inr [OF c] by simp
  show "guess b = map guess ?sb"
    using b torch_Tensor_Inr [OF g] by simp
qed

lemma collate_feat_uniform:
  assumes "uniform_batch D C G batch"
  shows "\<exists>b m. collate_feat batch = Inr (b, m)"
proof -
  let ?sb = "sorted_samples batch"
  have ne: "?sb \<noteq> []" using assms by (simp add: uniform_batch_def sorted_reverse_Nil_iff)
  have all: "\<forall>s\<in>set ?sb. width2 (features s) = D \<and> length (true_correction s) = C \<and> length (guess s) = G"
    using assms by (auto simp: uniform_batch_def list_all_iff set_sorted_reverse)
  have "\<exists>t. pad_sequence (map features ?sb) = Inr t"
    using ne all by (intro pad_sequence_uniform [where D = D]) (auto simp: list_all_iff)
  moreover have "torch_Tensor (map true_correction ?sb) = Inr (map true_correction ?sb)"
    using all by (intro torch_Tensor_uniform [where C = C]) (auto simp: list_all_iff)
  moreover have "torch_Tensor (map guess ?sb) = Inr (map guess ?sb)"
    using all by (intro torch_Tensor_uniform [where C = G]) (auto simp: list_all_iff)
  ultimately show ?thesis
    by (auto simp: collate_feat_def Let_def split: prod.splits)
qed

lemma pad_mask_entry:
  assumes "collate_feat batch = Inr (b, m)" and "i < length batch" and "l < L_max batch"
  shows "m ! i ! l \<longleftrightarrow> len2 (features (sorted_samples batch ! i)) \<le> l"
proof -
  let ?sb = "sorted_samples batch"
  let ?pm = "replicate (length batch) (replicate (L_max batch) False)"
  have "m ! i = mask_loop (enumerate 0 (map features ?sb)) ?pm ! i"
    using collate_feat_Inr(4) [OF assms(1)] by simp
  also have "\<dots> = set_from (len2 (map features ?sb ! i)) (?pm ! i)"
    using assms(2) mask_loop_enumerate [of ?pm 0 "map features ?sb" i]
    by (simp add: length_sorted_reverse)
  finally have "m ! i = set_from (len2 (features (?sb ! i))) (replicate (L_max batch) False)"
    using assms(2) by (simp add: length_sorted_reverse)
  then show ?thesis
    using assms(3) by (auto simp: set_from_nth)
qed

lemma pad_mask_shape:
  assumes "collate_feat batch = Inr (b, m)"
  shows "length m = length batch" and "\<forall>row\<in>set m. length row = L_max batch"
proof -
  let ?sb = "sorted_samples batch"
  let ?pm = "replicate (length batch) (replicate (L_max batch) False)"
  have m: "m = mask_loop (enumerate 0 (map features ?sb)) ?pm"
    by (rule collate_feat_Inr(4) [OF assms])
  show len: "length m = length batch" by (simp add: m mask_loop_length)
  have le: "len2 (features s) \<le> L_max batch" if "s \<in> set batch" for s
    unfolding L_max_def using that by (intro Max_ge) auto
  have "length (m ! i) = L_max batch" if "i < length batch" for i
  proof -
    have "m ! i = set_from (len2 (map features ?sb ! i)) (?pm ! i)"
      unfolding m using that mask_loop_enumerate [of ?pm 0 "map features ?sb" i]
      by (simp add: length_sorted_reverse)
    moreover have "?sb ! i \<in> set batch"
      using that by (metis length_sorted_reverse nth_mem set_sorted_reverse)
    ultimately show ?thesis
      using that le by (simp add: length_sorted_reverse length_set_from)
  qed
  then show "\<forall>row\<in>set m. length row = L_max batch"
    using len by (auto simp: in_set_conv_nth)
qed

lemma uniform_example_batch: "uniform_batch 2 2 2 example_batch"
  by (simp add: uniform_batch_def example_batch_def wf_tensor2_def)

lemma collate_example_batch:
  "collate_feat example_batch =
      Inr (\<lparr>features = \<lparr>size3 = (3, 3, 2),
              data3 = [[[4, 4], [1, 1], [3, 3]], [[5, 5], [2, 2], [0, 0]],
                       [[6, 6], [0, 0], [0, 0]]]\<rparr>,
              true_correction = [[12, 12], [10, 10], [11, 11]],
              guess = [[22, 22], [20, 20], [21, 21]]\<rparr>,
           [[False, False, False], [False, False, True], [False, True, True]])"
  unfolding example_batch_def by code_simp

lemma pad_mask_all_False:
  assumes "collate_feat batch = Inr (b, m)"
    and "\<forall>s\<in>set batch. len2 (features s) = c"
  shows "\<forall>row\<in>set m. \<forall>v\<in>set row. \<not> v"
proof (intro ballI)
  fix row v assume row: "row \<in> set m" and v: "v \<in> set row"
  have ne: "batch \<noteq> []" by (rule collate_feat_Inr(1) [OF assms(1)])
  have L: "L_max batch = c" by (rule L_max_const [OF ne assms(2)])
  from row obtain i where i: "i < length m" "row = m ! i" by (auto simp: in_set_conv_nth)
  then have ib: "i < length batch" using pad_mask_shape(1) [OF assms(1)] by simp
  have "length row = L_max batch" using pad_mask_shape(2) [OF assms(1)] row by simp
  with v obtain l where l: "l < L_max batch" "v = row ! l" by (auto simp: in_set_conv_nth)
  have "len2 (features (sorted_samples batch ! i)) = c"
    using assms(2) sorted_samples_nth_mem [OF ib] by simp
  then show "\<not> v"
    using pad_mask_entry [OF assms(1) ib l(1)] l i L by simp
qed

lemma padded_entry:
  assumes "collate_feat batch = Inr (b, m)" and "i < length batch" and "l < L_max batch"
  shows "data3 (features b) ! l ! i =
           (if l < len2 (features (sorted_samples batch ! i))
            then rows2 (features (sorted_samples batch ! i)) ! l
            else replicate (width2 (features (hd (sorted_samples batch)))) 0)"
  using assms collate_feat_Inr(3) [OF assms(1)]
  by (simp add: length_sorted_reverse)

lemma uniform_batch_width_hd:
  assumes "uniform_batch D C G batch"
  shows "width2 (features (hd (sorted_samples batch))) = D"
proof -
  have ne: "sorted_samples batch \<noteq> []"
    using assms by (simp add: uniform_batch_def sorted_reverse_Nil_iff)
  then have "hd (sorted_samples batch) \<in> set batch"
    by (metis hd_in_set set_sorted_reverse)
  then show ?thesis
    using assms by (auto simp: uniform_batch_def list_all_iff)
qed

section \<open>The collator: claims\<close>

text \<open>
  C1. For a batch as the dataset provides it, the collator returns a mask with
  \<open>pad_mask[i, l] = True\<close> exactly when \<open>l\<close> is at least the original length of the
  sample at sorted position \<open>i\<close>. Hence the mask of a batch of one sample, and of a
  batch whose samples all have one length, is \<open>False\<close> everywhere.
\<close>

theorem pad_mask_marks_padding:
  assumes "uniform_batch D C G batch"
  shows "\<exists>b m. collate_feat batch = Inr (b, m) \<and>
           (\<forall>i<length batch. \<forall>l<L_max batch.
              m ! i ! l \<longleftrightarrow> len2 (features (sorted_samples batch ! i)) \<le> l) \<and>
           (length batch = 1 \<longrightarrow> (\<forall>row\<in>set m. \<forall>v\<in>set row. \<not> v)) \<and>
           ((\<exists>c. \<forall>s\<in>set batch. len2 (features s) = c) \<longrightarrow>
              (\<forall>row\<in>set m. \<forall>v\<in>set row. \<not> v))"
proof -
  from collate_feat_uniform [OF assms] obtain b m where bm: "collate_feat batch = Inr (b, m)"
    by blast
  have one: "\<exists>c. \<forall>s\<in>set batch. len2 (features s) = c" if "length batch = 1"
  proof -
    from that obtain s where "batch = [s]" by (cases batch) auto
    then show ?thesis by auto
  qed
  have eq: "\<forall>row\<in>set m. \<forall>v\<in>set row. \<not> v" if "\<exists>c. \<forall>s\<in>set batch. len2 (features s) = c"
    using that pad_mask_all_False [OF bm] by blast
  show ?thesis
    using bm pad_mask_entry [OF bm] one eq by blast
qed

theorem pad_mask_marks_padding_witness:
  "uniform_batch 2 2 2 example_batch \<and>
   (\<exists>b m. collate_feat example_batch = Inr (b, m) \<and>
      m = [[False, False, False], [False, False, True], [False, True, True]])"
  using pad_mask_marks_padding [OF uniform_example_batch] uniform_example_batch
    collate_example_batch
  by simp

text \<open>
  C5. The collator orders the batch by non-increasing original length: the sorted
  batch is a permutation of the input, no sample is followed by a longer one, and
  samples of one length keep their original relative order. The stacked corrections
  and guesses (\<open>N\<close> rows of lengths \<open>C\<close> and \<open>G\<close>), the columns of the padded features
  and the rows of the mask all follow that order.
\<close>

theorem collate_sorted_stable:
  assumes "uniform_batch D C G batch"
  shows "\<exists>b m. collate_feat batch = Inr (b, m) \<and>
           mset (sorted_samples batch) = mset batch \<and>
           sorted_wrt (\<lambda>x y. len2 (features x) \<ge> len2 (features y)) (sorted_samples batch) \<and>
           (\<forall>c. filter (\<lambda>x. len2 (features x) = c) (sorted_samples batch) =
                filter (\<lambda>x. len2 (features x) = c) batch) \<and>
           true_correction b = map true_correction (sorted_samples batch) \<and>
           guess b = map guess (sorted_samples batch) \<and>
           length (true_correction b) = length batch \<and>
           (\<forall>r\<in>set (true_correction b). length r = C) \<and>
           length (guess b) = length batch \<and>
           (\<forall>r\<in>set (guess b). length r = G) \<and>
           (\<forall>i<length batch. \<forall>l<len2 (features (sorted_samples batch ! i)).
              data3 (features b) ! l ! i = rows2 (features (sorted_samples batch ! i)) ! l) \<and>
           (\<forall>i<length batch. \<forall>l<L_max batch.
              m ! i ! l \<longleftrightarrow> len2 (features (sorted_samples batch ! i)) \<le> l)"
proof -
  from collate_feat_uniform [OF assms] obtain b m where bm: "collate_feat batch = Inr (b, m)"
    by blast
  have all: "\<forall>s\<in>set (sorted_samples batch). length (true_correction s) = C \<and> length (guess s) = G"
    using assms by (auto simp: uniform_batch_def list_all_iff set_sorted_reverse)
  have tc: "true_correction b = map true_correction (sorted_samples batch)"
    and gs: "guess b = map guess (sorted_samples batch)"
    using collate_feat_Inr(5,6) [OF bm] by simp_all
  have c1: "length (true_correction b) = length batch" "length (guess b) = length batch"
    by (simp_all add: tc gs length_sorted_reverse)
  have c2: "\<forall>r\<in>set (true_correction b). length r = C" "\<forall>r\<in>set (guess b). length r = G"
    using all by (auto simp: tc gs)
  have feat: "data3 (features b) ! l ! i = rows2 (features (sorted_samples batch ! i)) ! l"
    if "i < length batch" "l < len2 (features (sorted_samples batch ! i))" for i l
  proof -
    have "l < L_max batch"
      using that len2_le_L_max [OF sorted_samples_nth_mem [OF that(1)]] by simp
    then show ?thesis using padded_entry [OF bm that(1)] that(2) by simp
  qed
  show ?thesis
    using bm mset_sorted_reverse [of "\<lambda>x. len2 (features x)" batch]
      sorted_reverse_descending [of "\<lambda>x. len2 (features x)" batch]
      sorted_reverse_stable [of "\<lambda>x. len2 (features x)" _ batch]
      tc gs c1 c2 feat pad_mask_entry [OF bm]
    by (intro exI [of _ b] exI [of _ m]) blast
qed

theorem collate_sorted_stable_witness:
  "uniform_batch 2 2 2 example_batch \<and>
   sorted_samples example_batch = [example_batch ! 2, example_batch ! 0, example_batch ! 1] \<and>
   sorted_reverse fst [(1::nat, ''a''), (2, ''b''), (1, ''c''), (2, ''d'')] =
     [(2, ''b''), (2, ''d''), (1, ''a''), (1, ''c'')] \<and>
   (\<exists>b m. collate_feat example_batch = Inr (b, m) \<and>
      true_correction b = [[12, 12], [10, 10], [11, 11]] \<and>
      guess b = [[22, 22], [20, 20], [21, 21]] \<and>
      true_correction b = map true_correction (sorted_samples example_batch))"
proof -
  have s: "sorted_samples example_batch = [example_batch ! 2, example_batch ! 0, example_batch ! 1]"
    by (simp add: example_batch_def sorted_reverse_def len2_def)
  from collate_sorted_stable [OF uniform_example_batch] collate_example_batch
  have "\<exists>b m. collate_feat example_batch = Inr (b, m) \<and>
      true_correction b = [[12, 12], [10, 10], [11, 11]] \<and>
      guess b = [[22, 22], [20, 20], [21, 21]] \<and>
      true_correction b = map true_correction (sorted_samples example_batch)"
    by auto
  moreover have "sorted_reverse fst [(1::nat, ''a''), (2, ''b''), (1, ''c''), (2, ''d'')] =
     [(2, ''b''), (2, ''d''), (1, ''a''), (1, ''c'')]"
    by (simp add: sorted_reverse_def)
  ultimately show ?thesis using s uniform_example_batch by blast
qed

text \<open>
  C6. The padded feature tensor has size \<open>(L_max, N, D)\<close>, with \<open>L_max\<close> planes of \<open>N\<close>
  rows of \<open>D\<close> entries, the positions beyond a sample's length hold zero rows, and
  the mask has \<open>N\<close> rows of \<open>L_max\<close> entries.
\<close>

theorem collate_shapes:
  assumes "uniform_batch D C G batch"
  shows "\<exists>b m. collate_feat batch = Inr (b, m) \<and>
           size3 (features b) = (L_max batch, length batch, D) \<and>
           length (data3 (features b)) = L_max batch \<and>
           (\<forall>plane\<in>set (data3 (features b)).
              length plane = length batch \<and> (\<forall>row\<in>set plane. length row = D)) \<and>
           (\<forall>i<length batch. \<forall>l<L_max batch.
              len2 (features (sorted_samples batch ! i)) \<le> l \<longrightarrow>
              data3 (features b) ! l ! i = replicate D 0) \<and>
           length m = length batch \<and>
           (\<forall>row\<in>set m. length row = L_max batch)"
proof -
  from collate_feat_uniform [OF assms] obtain b m where bm: "collate_feat batch = Inr (b, m)"
    by blast
  have w: "width2 (features (hd (sorted_samples batch))) = D"
    by (rule uniform_batch_width_hd [OF assms])
  have sz: "size3 (features b) = (L_max batch, length batch, D)"
    using collate_feat_Inr(2) [OF bm] w by simp
  have dt: "data3 (features b) =
           map (\<lambda>l. map (\<lambda>s. if l < len2 (features s) then rows2 (features s) ! l
                               else replicate D 0) (sorted_samples batch))
               [0..<L_max batch]"
    using collate_feat_Inr(3) [OF bm] w by simp
  have len: "length (data3 (features b)) = L_max batch" by (simp add: dt)
  have rows: "length r = D" if "s \<in> set batch" "r \<in> set (rows2 (features s))" for s r
    using assms that by (auto simp: uniform_batch_def list_all_iff wf_tensor2_def)
  have planes: "\<forall>plane\<in>set (data3 (features b)).
              length plane = length batch \<and> (\<forall>row\<in>set plane. length row = D)"
    unfolding dt
    by (auto simp: length_sorted_reverse set_sorted_reverse len2_def intro: rows)
  have pad: "data3 (features b) ! l ! i = replicate D 0"
    if "i < length batch" "l < L_max batch" "len2 (features (sorted_samples batch ! i)) \<le> l" for i l
    using that by (simp add: dt length_sorted_reverse)
  show ?thesis
    using bm sz len planes pad pad_mask_shape [OF bm]
    by (intro exI [of _ b] exI [of _ m]) blast
qed

theorem collate_shapes_witness:
  "uniform_batch 2 2 2 example_batch \<and> L_max example_batch = 3 \<and>
   (\<exists>b m. collate_feat example_batch = Inr (b, m) \<and>
      size3 (features b) = (3, 3, 2) \<and>
      data3 (features b) =
        [[[4, 4], [1, 1], [3, 3]], [[5, 5], [2, 2], [0, 0]], [[6, 6], [0, 0], [0, 0]]] \<and>
      length m = 3)"
proof -
  have L: "L_max example_batch = 3"
    by (simp add: L_max_def example_batch_def len2_def)
  from collate_shapes [OF uniform_example_batch] collate_example_batch L
  have "\<exists>b m. collate_feat example_batch = Inr (b, m) \<and>
      size3 (features b) = (3, 3, 2) \<and>
      data3 (features b) =
        [[[4, 4], [1, 1], [3, 3]], [[5, 5], [2, 2], [0, 0]], [[6, 6], [0, 0], [0, 0]]] \<and>
      length m = 3"
    by auto
  then show ?thesis using L uniform_example_batch by blast
qed

text \<open>
  C2. The claim that a sample of length 0 makes the collator raise does not hold: the
  collator has no check of the lengths. A batch of a two-row sample and a sample
  without rows is collated.
\<close>

theorem collate_zero_length_counterexample:
  "len2 (features (\<lparr>features = \<lparr>width2 = 2, rows2 = []\<rparr>,
                    true_correction = [11, 11], guess = [21, 21]\<rparr> :: sample)) = 0 \<and>
   collate_feat
     [\<lparr>features = \<lparr>width2 = 2, rows2 = [[1, 1], [2, 2]]\<rparr>,
        true_correction = [10, 10], guess = [20, 20]\<rparr>,
      \<lparr>features = \<lparr>width2 = 2, rows2 = []\<rparr>,
        true_correction = [11, 11], guess = [21, 21]\<rparr>]
   = Inr (\<lparr>features = \<lparr>size3 = (2, 2, 2), data3 = [[[1, 1], [0, 0]], [[2, 2], [0, 0]]]\<rparr>,
           true_correction = [[10, 10], [11, 11]],
           guess = [[20, 20], [21, 21]]\<rparr>,
          [[False, False], [True, True]])"
  by code_simp

text \<open>
  C2, as amended. For a batch as the dataset provides it that contains a sample of
  length 0, the collator raises nothing: it returns a batch in which that sample's
  column holds zero rows only and its mask row is \<open>True\<close> everywhere.
\<close>

theorem collate_accepts_zero_length:
  assumes "uniform_batch D C G batch" and "s \<in> set batch" and "len2 (features s) = 0"
  shows "\<exists>b m. collate_feat batch = Inr (b, m) \<and>
           (\<exists>i<length batch. sorted_samples batch ! i = s \<and>
              (\<forall>l<L_max batch. m ! i ! l \<and> data3 (features b) ! l ! i = replicate D 0))"
proof -
  from collate_feat_uniform [OF assms(1)] obtain b m where bm: "collate_feat batch = Inr (b, m)"
    by blast
  have "s \<in> set (sorted_samples batch)" using assms(2) by (simp add: set_sorted_reverse)
  then obtain i where i: "i < length batch" "sorted_samples batch ! i = s"
    by (auto simp: in_set_conv_nth length_sorted_reverse)
  have w: "width2 (features (hd (sorted_samples batch))) = D"
    by (rule uniform_batch_width_hd [OF assms(1)])
  have "m ! i ! l \<and> data3 (features b) ! l ! i = replicate D 0" if "l < L_max batch" for l
    using pad_mask_entry [OF bm i(1) that] padded_entry [OF bm i(1) that] i(2) assms(3) w
    by simp
  then show ?thesis using bm i by blast
qed

theorem collate_accepts_zero_length_witness:
  "uniform_batch 2 2 2
     [\<lparr>features = \<lparr>width2 = 2, rows2 = [[1, 1], [2, 2]]\<rparr>,
        true_correction = [10, 10], guess = [20, 20]\<rparr>,
      \<lparr>features = \<lparr>width2 = 2, rows2 = []\<rparr>,
        true_correction = [11, 11], guess = [21, 21]\<rparr>] \<and>
   (\<exists>b m. collate_feat
     [\<lparr>features = \<lparr>width2 = 2, rows2 = [[1, 1], [2, 2]]\<rparr>,
        true_correction = [10, 10], guess = [20, 20]\<rparr>,
      \<lparr>features = \<lparr>width2 = 2, rows2 = []\<rparr>,
        true_correction = [11, 11], guess = [21, 21]\<rparr>] = Inr (b, m))"
proof -
  let ?s = "\<lparr>features = \<lparr>width2 = 2, rows2 = []\<rparr>,
        true_correction = [11, 11], guess = [21, 21]\<rparr> :: sample"
  let ?B = "[\<lparr>features = \<lparr>width2 = 2, rows2 = [[1, 1], [2, 2]]\<rparr>,
        true_correction = [10, 10], guess = [20, 20]\<rparr>, ?s]"
  have u: "uniform_batch 2 2 2 ?B"
    by (simp add: uniform_batch_def wf_tensor2_def)
  have s: "?s \<in> set ?B" by simp
  have z: "len2 (features ?s) = 0" by (simp add: len2_def)
  from collate_accepts_zero_length [OF u s z] u show ?thesis by blast
qed

section \<open>Properties of the evaluator's loop\<close>

lemma eval_ready_batch:
  assumes "eval_ready net vl shape"
  shows "map length (target_at vl k) = shape" and "map length (pred_at net vl k) = shape"
proof -
  have "k mod length vl < length vl" using assms by (simp add: eval_ready_def)
  then have "batch_at vl k \<in> set vl" by (simp add: batch_at_def)
  then show "map length (target_at vl k) = shape" "map length (pred_at net vl k) = shape"
    using assms by (auto simp: eval_ready_def list_all_iff target_at_def pred_at_def)
qed

lemma tensor_sub_at:
  assumes "eval_ready net vl shape"
  shows "tensor_sub (target_at vl k) (pred_at net vl k) = Inr (diff_at net vl k)"
  using eval_ready_batch [OF assms, of k] by (simp add: tensor_sub_def diff_at_def)

lemma fetch_batch_drop:
  assumes "vl \<noteq> []" and "j \<le> length vl"
  shows "fetch_batch vl (drop j vl) = Inr (batch_at vl j, drop (Suc (j mod length vl)) vl)"
proof (cases "j < length vl")
  case True
  then have "drop j vl = vl ! j # drop (Suc j) vl" by (simp add: Cons_nth_drop_Suc)
  then show ?thesis using True by (simp add: fetch_batch_def py_next_def batch_at_def)
next
  case False
  then have j: "j = length vl" using assms(2) by simp
  from assms(1) obtain x xs where "vl = x # xs" by (cases vl) auto
  then show ?thesis using j by (simp add: fetch_batch_def py_next_def batch_at_def)
qed

lemma batch_at_shift: "batch_at vl (Suc (j mod length vl) + i) = batch_at vl (j + Suc i)"
proof -
  have "(Suc (j mod length vl) + i) mod length vl = (j + Suc i) mod length vl"
    by (metis add_Suc add_Suc_right mod_add_left_eq)
  then show ?thesis by (simp add: batch_at_def)
qed

lemma at_shift:
  "diff_at net vl (Suc (j mod length vl) + i) = diff_at net vl (j + Suc i)"
  "loss_at net lf vl (Suc (j mod length vl) + i) = loss_at net lf vl (j + Suc i)"
  using batch_at_shift [of vl j i]
  by (simp_all add: diff_at_def loss_at_def target_at_def pred_at_def)

lemma map_upt_Suc_shift: "map f [0..<Suc n] = f 0 # map (\<lambda>i. f (Suc i)) [0..<n]"
  by (simp add: map_upt_Suc del: upt_Suc)

lemma test_eval_loop_run:
  assumes "eval_ready net vl shape" and "j \<le> length vl"
  shows "test_eval_loop n vl (drop j vl) net lf stats loss =
           Inr (stats @ map (\<lambda>i. diff_at net vl (j + i)) [0..<n],
                loss + (\<Sum>i<n. loss_at net lf vl (j + i)))"
  using assms(2)
proof (induction n arbitrary: j stats loss)
  case 0
  then show ?case by simp
next
  case (Suc n)
  have ne: "vl \<noteq> []" using assms(1) by (simp add: eval_ready_def)
  have j': "Suc (j mod length vl) \<le> length vl" using ne by (simp add: Suc_leI)
  have fetch: "fetch_batch vl (drop j vl) = Inr (batch_at vl j, drop (Suc (j mod length vl)) vl)"
    by (rule fetch_batch_drop [OF ne Suc.prems])
  have sub: "tensor_sub (true_correction (fst (batch_at vl j)))
               (net (features (fst (batch_at vl j))) (snd (batch_at vl j))) = Inr (diff_at net vl j)"
    using tensor_sub_at [OF assms(1), of j] by (simp add: target_at_def pred_at_def)
  have "test_eval_loop (Suc n) vl (drop j vl) net lf stats loss =
          test_eval_loop n vl (drop (Suc (j mod length vl)) vl) net lf
            (stats @ [diff_at net vl j]) (loss + loss_at net lf vl j)"
    using fetch sub
    by (simp add: Let_def loss_at_def target_at_def pred_at_def case_prod_beta)
  also have "\<dots> = Inr ((stats @ [diff_at net vl j]) @
                       map (\<lambda>i. diff_at net vl (Suc (j mod length vl) + i)) [0..<n],
                     (loss + loss_at net lf vl j) +
                       (\<Sum>i<n. loss_at net lf vl (Suc (j mod length vl) + i)))"
    by (rule Suc.IH [OF j'])
  also have "\<dots> = Inr (stats @ map (\<lambda>i. diff_at net vl (j + i)) [0..<Suc n],
                loss + (\<Sum>i<Suc n. loss_at net lf vl (j + i)))"
    unfolding at_shift map_upt_Suc_shift sum.lessThan_Suc_shift
    by simp
  finally show ?case .
qed

lemma test_eval_loop_100:
  assumes "eval_ready net vl shape"
  shows "test_eval_loop 100 vl vl net lf [] 0 =
           Inr (map (diff_at net vl) [0..<100], (\<Sum>k<100. loss_at net lf vl k))"
  using test_eval_loop_run [OF assms, of 0 100 lf "[]" 0] by simp

lemma diff_at_shape:
  assumes "eval_ready net vl shape"
  shows "map length (diff_at net vl k) = shape"
proof -
  let ?y = "target_at vl k" and ?p = "pred_at net vl k"
  have y: "map length ?y = shape" and p: "map length ?p = shape"
    using eval_ready_batch [OF assms, of k] by simp_all
  have ly: "length ?y = length shape" and lp: "length ?p = length shape"
    using y p by (metis length_map)+
  show ?thesis
  proof (rule nth_equalityI)
    show "length (map length (diff_at net vl k)) = length shape"
      by (simp add: diff_at_def ly lp)
  next
    fix i assume "i < length (map length (diff_at net vl k))"
    then have i: "i < length shape" by (simp add: diff_at_def ly lp)
    have "length (?y ! i) = shape ! i" "length (?p ! i) = shape ! i"
      using i y p ly lp by (metis nth_map)+
    then show "map length (diff_at net vl k) ! i = shape ! i"
      using i by (simp add: diff_at_def ly lp)
  qed
qed

lemma diff_at_nth:
  assumes "eval_ready net vl shape" and "n < length shape" and "c < shape ! n"
  shows "diff_at net vl k ! n ! c = target_at vl k ! n ! c - pred_at net vl k ! n ! c"
proof -
  let ?y = "target_at vl k" and ?p = "pred_at net vl k"
  have y: "map length ?y = shape" and p: "map length ?p = shape"
    using eval_ready_batch [OF assms(1), of k] by simp_all
  have ly: "length ?y = length shape" and lp: "length ?p = length shape"
    using y p by (metis length_map)+
  have "length (?y ! n) = shape ! n" "length (?p ! n) = shape ! n"
    using assms(2) y p ly lp by (metis nth_map)+
  then show ?thesis
    using assms(2,3) by (simp add: diff_at_def ly lp)
qed

lemma np_mean_abs_axis0_uniform:
  assumes "stats \<noteq> []" and "\<forall>s\<in>set stats. map length s = shape"
  shows "np_mean_abs_axis0 stats =
           Inr (map (\<lambda>n. map (\<lambda>c. sum_list (map (\<lambda>s. \<bar>s ! n ! c\<bar>) stats) / real (length stats))
                              [0..<shape ! n])
                    [0..<length shape])"
proof -
  from assms(1) obtain s0 rest where st: "stats = s0 # rest" by (cases stats) auto
  have s0: "map length s0 = shape" using assms(2) st by simp
  have l0: "length s0 = length shape" using s0 by (metis length_map)
  have ln: "length (s0 ! n) = shape ! n" if "n < length shape" for n
    using that s0 l0 by (metis nth_map)
  have all: "list_all (\<lambda>s. map length s = map length s0) stats"
    using assms(2) s0 by (simp add: list_all_iff)
  have "np_mean_abs_axis0 stats =
          Inr (map (\<lambda>n. map (\<lambda>c. sum_list (map (\<lambda>s. \<bar>s ! n ! c\<bar>) stats) / real (length stats))
                              [0..<length (s0 ! n)])
                    [0..<length s0])"
    using all unfolding np_mean_abs_axis0_def st by simp
  also have "\<dots> = Inr (map (\<lambda>n. map (\<lambda>c. sum_list (map (\<lambda>s. \<bar>s ! n ! c\<bar>) stats) / real (length stats))
                              [0..<shape ! n])
                    [0..<length shape])"
    using ln by (simp add: l0)
  finally show ?thesis .
qed

lemma sum_list_upt_100:
  "sum_list (map (\<lambda>s. \<bar>s ! n ! c\<bar>) (map f [0..<100])) = (\<Sum>k<100. \<bar>f k ! n ! (c::nat)\<bar> :: real)"
proof -
  have "sum_list (map (\<lambda>s. \<bar>s ! n ! c\<bar>) (map f [0..<100])) =
        sum_list (map (\<lambda>k. \<bar>f k ! n ! c\<bar>) [0..<100])"
    by (simp add: comp_def)
  also have "\<dots> = sum (\<lambda>k. \<bar>f k ! n ! c\<bar>) (set [0..<100])"
    by (rule interv_sum_list_conv_sum_set_nat)
  also have "set [0..<100] = {..<100::nat}" by (simp add: atLeast0LessThan)
  finally show ?thesis .
qed

lemma test_eval_ready:
  assumes "eval_ready net vl shape"
  shows "test_eval vl net lf =
           Inr (map (\<lambda>n. map (\<lambda>c. (\<Sum>k<100. \<bar>diff_at net vl k ! n ! c\<bar>) / 100) [0..<shape ! n])
                    [0..<length shape],
                (\<Sum>k<100. loss_at net lf vl k) / 100)"
proof -
  let ?stats = "map (diff_at net vl) [0..<100]"
  have ne: "?stats \<noteq> []" by simp
  have sh: "\<forall>s\<in>set ?stats. map length s = shape"
    using diff_at_shape [OF assms] by auto
  have len: "length ?stats = 100" by simp
  show ?thesis
    unfolding test_eval_def test_eval_loop_100 [OF assms]
      using np_mean_abs_axis0_uniform [OF ne sh]
    by (simp only: sum.case prod.case len sum_list_upt_100) simp
qed

lemma example_eval_ready: "eval_ready (example_forward p) example_val_loader [1]"
  by (simp add: eval_ready_def example_val_loader_def example_forward_def)

lemma example_test_eval:
  "test_eval example_val_loader (example_forward 3) example_loss = Inr ([[5 / 2]], 13 / 2)"
  unfolding example_val_loader_def example_forward_def example_loss_def
  by code_simp

section \<open>The evaluator: claims\<close>

text \<open>
  C3. For a validation loader that yields at least one batch (and a network whose
  prediction has the shape of the target), the evaluator runs exactly 100
  iterations: iteration \<open>k\<close> evaluates the batch \<open>k mod n\<close> of the \<open>n\<close> batches, the loader
  being restarted when it is exhausted, and the mean loss it returns is the sum of
  the 100 losses divided by 100.
\<close>

theorem test_eval_hundred_iterations:
  assumes "eval_ready net vl shape"
  shows "\<exists>stats_val mean_acc.
           test_eval_loop 100 vl vl net lf [] 0 =
             Inr (stats_val, (\<Sum>k<100. loss_at net lf vl k)) \<and>
           length stats_val = 100 \<and>
           (\<forall>k<100. stats_val ! k = diff_at net vl k) \<and>
           test_eval vl net lf = Inr (mean_acc, (\<Sum>k<100. loss_at net lf vl k) / 100)"
proof -
  let ?stats = "map (diff_at net vl) [0..<100]"
  have "length ?stats = 100" by simp
  moreover have "\<forall>k<100. ?stats ! k = diff_at net vl k"
    by (simp del: upt_Suc)
  ultimately show ?thesis
    using test_eval_loop_100 [OF assms, of lf] test_eval_ready [OF assms, of lf]
    by blast
qed

theorem test_eval_hundred_iterations_witness:
  "eval_ready (example_forward 3) example_val_loader [1] \<and>
   length example_val_loader = 2 \<and>
   (\<exists>stats_val mean_acc.
      test_eval_loop 100 example_val_loader example_val_loader (example_forward 3)
        example_loss [] 0 =
        Inr (stats_val, (\<Sum>k<100. loss_at (example_forward 3) example_loss example_val_loader k)) \<and>
      length stats_val = 100 \<and>
      test_eval example_val_loader (example_forward 3) example_loss = Inr (mean_acc, 13 / 2))"
proof -
  from test_eval_hundred_iterations [OF example_eval_ready, of 3 example_loss]
  obtain stats_val mean_acc where
    a: "test_eval_loop 100 example_val_loader example_val_loader (example_forward 3)
        example_loss [] 0 =
        Inr (stats_val, (\<Sum>k<100. loss_at (example_forward 3) example_loss example_val_loader k))"
    and b: "length stats_val = 100"
    and c: "test_eval example_val_loader (example_forward 3) example_loss =
        Inr (mean_acc, (\<Sum>k<100. loss_at (example_forward 3) example_loss example_val_loader k) / 100)"
    by blast
  from c example_test_eval
  have "test_eval example_val_loader (example_forward 3) example_loss = Inr (mean_acc, 13 / 2)"
    by simp
  moreover have "length example_val_loader = 2" by (simp add: example_val_loader_def)
  ultimately show ?thesis using a b example_eval_ready by blast
qed

text \<open>
  C7. With batches of one sample, as the validation loader is built, and corrections
  of length \<open>C\<close>, the evaluator returns an error matrix of shape \<open>[1, C]\<close> whose entry
  \<open>c\<close> is the mean over the 100 evaluated samples of the absolute difference of target
  and prediction in dimension \<open>c\<close>.
\<close>

theorem test_eval_mean_abs_error:
  assumes "eval_ready net vl [C]"
  shows "\<exists>mean_acc loss.
           test_eval vl net lf = Inr (mean_acc, loss) \<and>
           length mean_acc = 1 \<and> length (mean_acc ! 0) = C \<and>
           (\<forall>c<C. mean_acc ! 0 ! c =
              (\<Sum>k<100. \<bar>target_at vl k ! 0 ! c - pred_at net vl k ! 0 ! c\<bar>) / 100)"
proof -
  have d: "diff_at net vl k ! 0 ! c = target_at vl k ! 0 ! c - pred_at net vl k ! 0 ! c"
    if "c < C" for k c
    using diff_at_nth [OF assms, of 0 c k] that by simp
  let ?M = "map (\<lambda>n. map (\<lambda>c. (\<Sum>k<100. \<bar>diff_at net vl k ! n ! c\<bar>) / 100) [0..<[C] ! n])
                [0..<length [C]]"
  have r: "test_eval vl net lf = Inr (?M, (\<Sum>k<100. loss_at net lf vl k) / 100)"
    by (rule test_eval_ready [OF assms])
  have "length ?M = 1" "length (?M ! 0) = C" by simp_all
  moreover have "\<forall>c<C. ?M ! 0 ! c =
              (\<Sum>k<100. \<bar>target_at vl k ! 0 ! c - pred_at net vl k ! 0 ! c\<bar>) / 100"
    by (simp add: d)
  ultimately show ?thesis using r by blast
qed

theorem test_eval_mean_abs_error_witness:
  "eval_ready (example_forward 3) example_val_loader [1] \<and>
   (\<exists>mean_acc loss.
      test_eval example_val_loader (example_forward 3) example_loss = Inr (mean_acc, loss) \<and>
      mean_acc = [[5 / 2]] \<and> length mean_acc = 1 \<and> length (mean_acc ! 0) = 1)"
  using test_eval_mean_abs_error [OF example_eval_ready, of 3 example_loss]
    example_eval_ready [of 3] example_test_eval
  by simp

text \<open>
  C9. With a validation loader that yields no batch, the first iteration fails:
  \<^verbatim>\<open>next\<close> raises \<^verbatim>\<open>StopIteration\<close>, the handler restarts the loader and its own
  \<^verbatim>\<open>next\<close> raises again, outside any handler, so the evaluator aborts.
\<close>

theorem test_eval_empty_loader:
  "test_eval [] net lf = Inl StopIteration \<and>
   test_eval_loop (Suc n) [] [] net lf stats loss = Inl StopIteration"
proof -
  have "test_eval_loop (Suc k) [] [] net lf st l = Inl StopIteration" for k st l
    by (simp add: fetch_batch_def py_next_def)
  from this [of 99 "[]" 0] this [of n stats loss] show ?thesis
    by (simp add: test_eval_def)
qed

section \<open>Properties of the epoch loop\<close>

lemma main_loop_append:
  "main_loop tp fw lf vl (es @ es') st =
     (case main_loop tp fw lf vl es st of
        Inl e \<Rightarrow> Inl e
      | Inr st' \<Rightarrow> main_loop tp fw lf vl es' st')"
  by (induction es arbitrary: st) (auto split: sum.splits)

lemma epoch_body_Inr:
  assumes "epoch_body tp fw lf vl k st = Inr st'"
  shows "\<exists>acc l. test_eval vl (fw (tp k (t_net st))) lf = Inr (acc, l) \<and>
           st' = (if np_sum acc < min_acc st
                  then st \<lparr> t_net := tp k (t_net st), min_acc := np_sum acc,
                            saved := saved st @ [(k, tp k (t_net st))] \<rparr>
                  else st \<lparr> t_net := tp k (t_net st) \<rparr>)"
  using assms
  by (auto simp: epoch_body_def Let_def split: sum.splits list.splits if_splits)

lemma best_before_0: "best_before tp fw lf vl net0 0 = 1000000"
  by (simp add: best_before_def)

lemma best_before_Suc:
  "best_before tp fw lf vl net0 (Suc k) =
     min (epoch_score tp fw lf vl net0 k) (best_before tp fw lf vl net0 k)"
proof -
  let ?S = "epoch_score tp fw lf vl net0 ` {..<k}"
  have "insert 1000000 (epoch_score tp fw lf vl net0 ` {..<Suc k}) =
        insert (epoch_score tp fw lf vl net0 k) (insert 1000000 ?S)"
    by (auto simp: lessThan_Suc)
  moreover have "Min (insert (epoch_score tp fw lf vl net0 k) (insert 1000000 ?S)) =
                 min (epoch_score tp fw lf vl net0 k) (Min (insert 1000000 ?S))"
    by (rule Min_insert) simp_all
  ultimately show ?thesis
    unfolding best_before_def by simp
qed

lemma main_loop_invariant:
  assumes "main_loop tp fw lf vl [0..<n] (initial_state net0) = Inr st"
  shows "t_net st = net_at tp net0 n \<and>
         min_acc st = best_before tp fw lf vl net0 n \<and>
         map fst (saved st) =
           filter (\<lambda>k. epoch_score tp fw lf vl net0 k < best_before tp fw lf vl net0 k) [0..<n] \<and>
         (\<forall>(k, p)\<in>set (saved st). p = net_at tp net0 (Suc k))"
  using assms
proof (induction n arbitrary: st)
  case 0
  then show ?case by (auto simp: initial_state_def best_before_0)
next
  case (Suc n)
  from Suc.prems obtain st' where
    run: "main_loop tp fw lf vl [0..<n] (initial_state net0) = Inr st'" and
    step: "epoch_body tp fw lf vl n st' = Inr st"
    by (auto simp: main_loop_append split: sum.splits)
  from Suc.IH [OF run] have
    net: "t_net st' = net_at tp net0 n" and
    best: "min_acc st' = best_before tp fw lf vl net0 n" and
    sv: "map fst (saved st') =
           filter (\<lambda>k. epoch_score tp fw lf vl net0 k < best_before tp fw lf vl net0 k) [0..<n]" and
    ps: "\<forall>(k, p)\<in>set (saved st'). p = net_at tp net0 (Suc k)"
    by simp_all
  from epoch_body_Inr [OF step] obtain acc l where
    ev: "test_eval vl (fw (tp n (t_net st'))) lf = Inr (acc, l)" and
    st: "st = (if np_sum acc < min_acc st'
                  then st' \<lparr> t_net := tp n (t_net st'), min_acc := np_sum acc,
                            saved := saved st' @ [(n, tp n (t_net st'))] \<rparr>
                  else st' \<lparr> t_net := tp n (t_net st') \<rparr>)"
    by blast
  have sc: "epoch_score tp fw lf vl net0 n = np_sum acc"
    using ev net by (simp add: epoch_score_def)
  show ?case
  proof (cases "np_sum acc < min_acc st'")
    case True
    then show ?thesis
      using st net best sv ps sc by (auto simp: best_before_Suc)
  next
    case False
    then show ?thesis
      using st net best sv ps sc by (auto simp: best_before_Suc)
  qed
qed

lemma example_run:
  "train example_train_phase example_forward example_loss example_val_loader 3 0 =
     Inr \<lparr> t_net = 27 / 5, min_acc = 49 / 10, saved = [(0, 11 / 2), (2, 27 / 5)] \<rparr>"
  unfolding example_train_phase_def example_forward_def example_loss_def example_val_loader_def
  by code_simp

lemma example_scores:
  "epoch_score example_train_phase example_forward example_loss example_val_loader 0 0 = 5"
  "epoch_score example_train_phase example_forward example_loss example_val_loader 0 1 = 6"
  "epoch_score example_train_phase example_forward example_loss example_val_loader 0 2 = 49 / 10"
  unfolding example_train_phase_def example_forward_def example_loss_def example_val_loader_def
  by code_simp+

lemma example_run_high:
  "train (\<lambda>epoch p. 2000000) example_forward example_loss example_val_loader 1 0 =
     Inr \<lparr> t_net = 2000000, min_acc = 1000000, saved = [] \<rparr>"
  unfolding example_forward_def example_loss_def example_val_loader_def
  by code_simp

lemma example_score_high:
  "epoch_score (\<lambda>epoch p. 2000000) example_forward example_loss example_val_loader 0 0
     = 3999999 / 2"
  unfolding example_forward_def example_loss_def example_val_loader_def
  by code_simp

section \<open>The epoch loop: claims\<close>

text \<open>
  C4. Read with the best score seen so far as the least score of the earlier epochs,
  the statement does not hold: \<^verbatim>\<open>min_acc\<close> starts at 1000000, so in a run with the
  scores 1999999.5 and 1499999.5 the second epoch improves on the first and still
  nothing is written.
\<close>

theorem checkpoint_best_seen_counterexample:
  "train (\<lambda>epoch p. if epoch = 0 then 2000000 else 1500000)
     example_forward example_loss example_val_loader 2 0 =
     Inr \<lparr> t_net = 1500000, min_acc = 1000000, saved = [] \<rparr> \<and>
   epoch_score (\<lambda>epoch p. if epoch = 0 then 2000000 else 1500000)
     example_forward example_loss example_val_loader 0 0 = 3999999 / 2 \<and>
   epoch_score (\<lambda>epoch p. if epoch = 0 then 2000000 else 1500000)
     example_forward example_loss example_val_loader 0 1 = 2999999 / 2"
  unfolding example_forward_def example_loss_def example_val_loader_def
  by code_simp

text \<open>
  C4, as amended. In a run of \<open>N\<close> epochs, \<^verbatim>\<open>torch.save\<close> is called after exactly those
  epochs whose score is strictly lower than the best score so far, where the best
  score is the value of \<^verbatim>\<open>min_acc\<close> when the epoch begins: 1000000 at the start, then
  the least of 1000000 and the scores of the earlier epochs. Each call writes the
  parameters of its epoch, and the best score becomes the new score when it is lower
  and stays otherwise. Scores 5.0, 6.0 and 4.9 give writes after the first and the
  third epoch only.
\<close>

theorem checkpoint_iff_improves:
  assumes "train tp fw lf vl N net0 = Inr st"
  shows "map fst (saved st) =
           filter (\<lambda>k. epoch_score tp fw lf vl net0 k < best_before tp fw lf vl net0 k) [0..<N] \<and>
         (\<forall>(k, p)\<in>set (saved st). p = net_at tp net0 (Suc k)) \<and>
         min_acc st = best_before tp fw lf vl net0 N \<and>
         (\<forall>k. best_before tp fw lf vl net0 (Suc k) =
                (if epoch_score tp fw lf vl net0 k < best_before tp fw lf vl net0 k
                 then epoch_score tp fw lf vl net0 k
                 else best_before tp fw lf vl net0 k))"
proof -
  have "main_loop tp fw lf vl [0..<N] (initial_state net0) = Inr st"
    using assms by (simp add: train_def)
  from main_loop_invariant [OF this] show ?thesis
    by (simp add: best_before_Suc min_def not_less)
qed

theorem checkpoint_iff_improves_witness:
  "train example_train_phase example_forward example_loss example_val_loader 3 0 =
     Inr \<lparr> t_net = 27 / 5, min_acc = 49 / 10, saved = [(0, 11 / 2), (2, 27 / 5)] \<rparr> \<and>
   epoch_score example_train_phase example_forward example_loss example_val_loader 0 0 = 5 \<and>
   epoch_score example_train_phase example_forward example_loss example_val_loader 0 1 = 6 \<and>
   epoch_score example_train_phase example_forward example_loss example_val_loader 0 2 = 49 / 10 \<and>
   [0, 2] =
     filter (\<lambda>k. epoch_score example_train_phase example_forward example_loss
                    example_val_loader 0 k
                < best_before example_train_phase example_forward example_loss
                    example_val_loader 0 k) [0..<3] \<and>
   best_before example_train_phase example_forward example_loss example_val_loader 0 3 = 49 / 10"
  using checkpoint_iff_improves [OF example_run] example_run example_scores
  by simp

text \<open>
  C10. The best score starts at the finite constant 1000000: a run whose first epoch
  has a score of 1000000 or more writes no checkpoint after that epoch, and a run of
  that single epoch writes none at all and leaves the best score at 1000000.
\<close>

theorem no_checkpoint_above_initial_threshold:
  assumes "train tp fw lf vl N net0 = Inr st"
    and "0 < N"
    and "1000000 \<le> epoch_score tp fw lf vl net0 0"
  shows "min_acc (initial_state net0) = 1000000 \<and>
         0 \<notin> set (map fst (saved st)) \<and>
         (N = 1 \<longrightarrow> saved st = [] \<and> min_acc st = 1000000)"
proof -
  have run: "main_loop tp fw lf vl [0..<N] (initial_state net0) = Inr st"
    using assms(1) by (simp add: train_def)
  note inv = main_loop_invariant [OF run]
  have no0: "\<not> epoch_score tp fw lf vl net0 0 < best_before tp fw lf vl net0 0"
    using assms(3) by (simp add: best_before_0)
  have a: "0 \<notin> set (map fst (saved st))"
    using inv no0 by simp
  have b: "saved st = [] \<and> min_acc st = 1000000" if "N = 1"
  proof -
    have "map fst (saved st) = []" using inv no0 that by simp
    moreover have "min_acc st = 1000000"
      using inv that assms(3) best_before_Suc [of tp fw lf vl net0 0]
      by (simp add: best_before_0 min_def)
    ultimately show ?thesis by simp
  qed
  show ?thesis using a b by (simp add: initial_state_def)
qed

theorem no_checkpoint_above_initial_threshold_witness:
  "train (\<lambda>epoch p. 2000000) example_forward example_loss example_val_loader 1 0 =
     Inr \<lparr> t_net = 2000000, min_acc = 1000000, saved = [] \<rparr> \<and>
   (0::nat) < 1 \<and>
   (1000000::real) \<le>
     epoch_score (\<lambda>epoch p. 2000000) example_forward example_loss example_val_loader 0 0 \<and>
   min_acc (initial_state (0::real)) = 1000000"
proof -
  have s: "(1000000::real) \<le>
     epoch_score (\<lambda>epoch p. 2000000) example_forward example_loss example_val_loader 0 0"
    by (simp add: example_score_high)
  from no_checkpoint_above_initial_threshold [OF example_run_high _ s] example_run_high s
  show ?thesis by simp
qed

end
